theory Spec2Isabelle
  imports Complex_Main
begin

section \<open>Python values used by app.py\<close>

text \<open>
  A Python \<open>str\<close> is a sequence of Unicode code points, so it is modelled as a list of
  naturals (the Japanese literals of the source do not fit the 8-bit characters of HOL).
  ASCII literals are written as HOL strings and converted with \<open>ascii\<close>.
\<close>

type_synonym ustr = "nat list"

definition ascii :: "string \<Rightarrow> ustr" where
  "ascii s = map of_char s"

text \<open>\<open>str(n)\<close> for a non-negative integer: its decimal digits.\<close>

fun str_nat :: "nat \<Rightarrow> ustr" where
  "str_nat n = (if n < 10 then [48 + n] else str_nat (n div 10) @ [48 + n mod 10])"

declare str_nat.simps [simp del]

text \<open>What an f-string prints for a value that is a \<open>str\<close> or \<open>None\<close>.\<close>

definition str_opt :: "ustr option \<Rightarrow> ustr" where
  "str_opt v = (case v of None \<Rightarrow> ascii ''None'' | Some s \<Rightarrow> s)"

text \<open>Truthiness of a value that is a \<open>str\<close> or \<open>None\<close>: \<open>None\<close> and \<open>""\<close> are falsy.\<close>

definition truthy :: "ustr option \<Rightarrow> bool" where
  "truthy v = (case v of None \<Rightarrow> False | Some s \<Rightarrow> s \<noteq> [])"

text \<open>
  \<open>str.isspace\<close> on one code point, which is the set \<open>str.strip()\<close> removes:
  U+0009..U+000D, U+001C..U+0020, U+0085, U+00A0, U+1680, U+2000..U+200A, U+2028, U+2029,
  U+202F, U+205F, U+3000.
\<close>

definition isspace :: "nat \<Rightarrow> bool" where
  "isspace c \<longleftrightarrow>
     (9 \<le> c \<and> c \<le> 13) \<or> (28 \<le> c \<and> c \<le> 32) \<or> c = 133 \<or> c = 160 \<or> c = 5760 \<or>
     (8192 \<le> c \<and> c \<le> 8202) \<or> c = 8232 \<or> c = 8233 \<or> c = 8239 \<or> c = 8287 \<or> c = 12288"

definition strip :: "ustr \<Rightarrow> ustr" where
  "strip s = rev (dropWhile isspace (rev (dropWhile isspace s)))"

text \<open>
  \<open>s.split(sep)\<close> for a one-character separator: the pieces between the separators, in
  order, empty pieces kept; the empty string gives one empty piece.
\<close>

fun split :: "nat \<Rightarrow> ustr \<Rightarrow> ustr list" where
  "split sep [] = [[]]"
| "split sep (c # cs) =
     (if c = sep then [] # split sep cs
      else (case split sep cs of [] \<Rightarrow> [[c]] | p # ps \<Rightarrow> (c # p) # ps))"

definition COMMA :: nat where
  "COMMA = 44"

section \<open>Exceptions\<close>

text \<open>
  The exceptions that reach a handler of app.py, each with the text \<open>str(e)\<close> gives.
  \<open>Timeout\<close>, \<open>ConnectionError\<close> and \<open>HTTPError\<close> are the subclasses of
  \<open>requests.exceptions.RequestException\<close> the fetch raises; \<open>OtherException\<close> stands for
  every other subclass of \<open>Exception\<close>.
\<close>

datatype exn =
    RequestException ustr
  | Timeout ustr
  | ConnectionError ustr
  | HTTPError ustr
  | ParseError ustr
  | IndexError ustr
  | AttributeError ustr
  | OtherException ustr

fun exn_str :: "exn \<Rightarrow> ustr" where
  "exn_str (RequestException m) = m"
| "exn_str (Timeout m) = m"
| "exn_str (ConnectionError m) = m"
| "exn_str (HTTPError m) = m"
| "exn_str (ParseError m) = m"
| "exn_str (IndexError m) = m"
| "exn_str (AttributeError m) = m"
| "exn_str (OtherException m) = m"

text \<open>\<open>isinstance(e, requests.exceptions.RequestException)\<close>\<close>

fun is_RequestException :: "exn \<Rightarrow> bool" where
  "is_RequestException (RequestException m) = True"
| "is_RequestException (Timeout m) = True"
| "is_RequestException (ConnectionError m) = True"
| "is_RequestException (HTTPError m) = True"
| "is_RequestException e = False"

text \<open>\<open>isinstance(e, ET.ParseError)\<close>\<close>

fun is_ParseError :: "exn \<Rightarrow> bool" where
  "is_ParseError (ParseError m) = True"
| "is_ParseError e = False"

section \<open>Data of the request\<close>

text \<open>The dictionaries \<open>generate_request_prompt\<close> builds, with their keys as fields.\<close>

record message =
  author :: ustr
  content :: ustr

record request_prompt =
  rp_context :: ustr
  maxOutputTokens :: int
  messages :: "message list"
  temperature :: real
  topP :: real

text \<open>\<open>types.GenerateContentConfig\<close> and the arguments of \<open>generate_content\<close>.\<close>

record config =
  system_instruction :: ustr
  max_output_tokens :: int
  cfg_temperature :: real
  top_p :: real

record gen_request =
  api_key :: ustr
  model :: ustr
  contents :: ustr
  gen_config :: config

text \<open>An element of the parsed feed: its tag, its text (\<open>None\<close> when empty), its children.\<close>

datatype element = Element (el_tag: ustr) (el_text: "ustr option") (el_children: "element list")

text \<open>What \<open>requests.get\<close> returns.\<close>

record http_response =
  status_code :: nat
  reason :: ustr
  url :: ustr
  resp_content :: "nat list"

text \<open>One entry of \<open>news_list\<close>.\<close>

record article =
  article_id :: nat
  title :: "ustr option"
  link :: "ustr option"
  description :: "ustr option"
  tags :: "ustr list"

text \<open>JSON values, and the response of the route: a status and a JSON body.\<close>

datatype json = JNull | JInt int | JStr ustr | JArr "json list" | JObj "(string \<times> json) list"

record response =
  status :: nat
  body :: json

section \<open>The process and the outside world\<close>

text \<open>
  \<open>env\<close> is what the process reads and calls but does not own: the credential read at
  start-up, and the behaviour of the three library calls that leave the process or parse
  bytes. The HTTP fetch and the generative call are indexed by the number of calls made
  before, so two calls with the same arguments may differ.
\<close>

record env =
  GEMINI_API_KEY :: "ustr option"
  requests_get :: "nat \<Rightarrow> ustr \<Rightarrow> nat \<Rightarrow> exn + http_response"
  ET_fromstring :: "nat list \<Rightarrow> exn + element"
  generate_content :: "nat \<Rightarrow> gen_request \<Rightarrow> exn + ustr option"

text \<open>
  \<open>world\<close> records the effects: the lines printed, the URLs fetched, the requests sent
  to the generative service.
\<close>

record world =
  printed :: "ustr list"
  feed_gets :: "ustr list"
  gen_calls :: "gen_request list"

definition print :: "ustr \<Rightarrow> world \<Rightarrow> world" where
  "print line w = w\<lparr>printed := printed w @ [line]\<rparr>"

section \<open>Tag generation: chat and generate_request_prompt\<close>

definition MSG_NO_KEY :: ustr where
  "MSG_NO_KEY = [12456, 12521, 12540] @ ascii '': GEMINI_API_KEY'' @
     [12364, 35373, 23450, 12373, 12428, 12390, 12356, 12414, 12379, 12435, 12290]"

definition MSG_GEMINI_ERROR :: ustr where
  "MSG_GEMINI_ERROR = ascii ''Gemini API'' @
     [21628, 12403, 20986, 12375, 20013, 12395, 12456, 12521, 12540, 12364, 30330, 29983,
      12375, 12414, 12375, 12383] @ ascii '': ''"

text \<open>\<open>str(e)\<close> of the AttributeError that \<open>None.split\<close> raises.\<close>

definition MSG_NONE_SPLIT :: ustr where
  "MSG_NONE_SPLIT = [39] @ ascii ''NoneType'' @ [39] @ ascii '' object has no attribute '' @
     [39] @ ascii ''split'' @ [39]"

text \<open>The comprehension of line 48: the pieces whose stripped form is non-empty, stripped.\<close>

definition parse_tags :: "ustr \<Rightarrow> ustr list" where
  "parse_tags text = map strip (filter (\<lambda>t. strip t \<noteq> []) (split COMMA text))"

text \<open>
  The body of the \<open>try\<close> of \<open>chat\<close> (lines 40 to 49): one call of the service, then the
  parsing of \<open>response.text\<close>. A response without text has \<open>text = None\<close>, and
  \<open>None.split\<close> raises AttributeError.
\<close>

definition chat_try :: "env \<Rightarrow> gen_request \<Rightarrow> world \<Rightarrow> (exn + ustr list) \<times> world" where
  "chat_try e req w =
     (let w1 = w\<lparr>gen_calls := gen_calls w @ [req]\<rparr> in
      case generate_content e (length (gen_calls w)) req of
        Inl ex \<Rightarrow> (Inl ex, w1)
      | Inr None \<Rightarrow> (Inl (AttributeError MSG_NONE_SPLIT), w1)
      | Inr (Some text) \<Rightarrow> (Inr (parse_tags text), w1))"

text \<open>
  Lines 28 to 37 of \<open>chat\<close>, which are outside its \<open>try\<close>: the client, the content
  string and the configuration. \<open>messages[0]\<close> raises IndexError on an empty list; the
  client and the configuration are plain constructions from the credential and the prompt.
\<close>

definition build_request :: "env \<Rightarrow> request_prompt \<Rightarrow> exn + gen_request" where
  "build_request e request_prompt =
     (case messages request_prompt of
        [] \<Rightarrow> Inl (IndexError (ascii ''list index out of range''))
      | m # ms \<Rightarrow>
          (let content_string = content m;
               cfg = \<lparr>system_instruction = rp_context request_prompt,
                      max_output_tokens = maxOutputTokens request_prompt,
                      cfg_temperature = temperature request_prompt,
                      top_p = topP request_prompt\<rparr>
           in Inr \<lparr>api_key = str_opt (GEMINI_API_KEY e),
                   model = ascii ''gemini-2.5-flash'',
                   contents = content_string,
                   gen_config = cfg\<rparr>))"

text \<open>
  \<open>chat\<close>: the credential check, the construction, the \<open>try\<close> and its handler, which
  prints the exception and returns the empty list. An exception of the construction
  leaves the function (\<open>Inl\<close>).
\<close>

definition chat :: "env \<Rightarrow> request_prompt \<Rightarrow> world \<Rightarrow> (exn + ustr list) \<times> world" where
  "chat e request_prompt w =
     (if \<not> truthy (GEMINI_API_KEY e) then (Inr [], print MSG_NO_KEY w)
      else
        (case build_request e request_prompt of
           Inl ex \<Rightarrow> (Inl ex, w)
         | Inr req \<Rightarrow>
             (case chat_try e req w of
                (Inl ex, w1) \<Rightarrow> (Inr [], print (MSG_GEMINI_ERROR @ exn_str ex) w1)
              | (Inr tgs, w1) \<Rightarrow> (Inr tgs, w1))))"

definition generate_request_prompt :: "ustr \<Rightarrow> ustr \<Rightarrow> real \<Rightarrow> real \<Rightarrow> request_prompt" where
  "generate_request_prompt prompt cont tmp p =
     \<lparr>rp_context = prompt,
      maxOutputTokens = 1024,
      messages = [\<lparr>author = ascii ''user'', content = cont\<rparr>],
      temperature = tmp,
      topP = p\<rparr>"

section \<open>The feed registry and the element tree\<close>

definition RSS_FEEDS :: "(ustr \<times> ustr) list" where
  "RSS_FEEDS =
     [([12486, 12463, 12494, 12525, 12472, 12540],
       ascii ''https://news.google.com/rss/headlines/section/topic/TECHNOLOGY?hl=ja&gl=JP&ceid=JP:ja''),
      ([32076, 28168],
       ascii ''https://news.google.com/rss/headlines/section/topic/BUSINESS?hl=ja&gl=JP&ceid=JP:ja''),
      ([12473, 12509, 12540, 12484],
       ascii ''https://news.google.com/rss/headlines/section/topic/SPORTS?hl=ja&gl=JP&ceid=JP:ja''),
      ([22269, 38555],
       ascii ''https://news.google.com/rss/headlines/section/topic/WORLD?hl=ja&gl=JP&ceid=JP:ja'')]"

text \<open>\<open>Element.iter()\<close>: the element and its descendants in document order.\<close>

fun iter :: "element \<Rightarrow> element list" where
  "iter (Element t x cs) = Element t x cs # concat (map iter cs)"

text \<open>\<open>root.findall('.//' + tag)\<close>: the descendants with that tag, the root excluded.\<close>

definition findall_descendants :: "ustr \<Rightarrow> element \<Rightarrow> element list" where
  "findall_descendants tg rt = filter (\<lambda>x. el_tag x = tg) (concat (map iter (el_children rt)))"

text \<open>\<open>item.find(tag)\<close>: the first child with that tag, or \<open>None\<close>.\<close>

definition find_child :: "ustr \<Rightarrow> element \<Rightarrow> element option" where
  "find_child tg item = List.find (\<lambda>x. el_tag x = tg) (el_children item)"

text \<open>
  \<open>raise_for_status\<close> of the requests library: HTTPError for a status from 400 to 599,
  nothing otherwise.
\<close>

definition raise_for_status :: "http_response \<Rightarrow> exn option" where
  "raise_for_status r =
     (if 400 \<le> status_code r \<and> status_code r < 500 then
        Some (HTTPError (str_nat (status_code r) @ ascii '' Client Error: '' @ reason r @
                         ascii '' for url: '' @ url r))
      else if 500 \<le> status_code r \<and> status_code r < 600 then
        Some (HTTPError (str_nat (status_code r) @ ascii '' Server Error: '' @ reason r @
                         ascii '' for url: '' @ url r))
      else None)"

section \<open>The route: get_news\<close>

definition system_prompt :: ustr where
  "system_prompt =
     [10] @ ascii ''                # '' @ [21629, 20196, 10] @ ascii ''                '' @
     [25552, 20379, 12373, 12428, 12383, 12491, 12517, 12540, 12473, 35352, 20107, 12398,
      20869, 23481, 12434, 20998, 26512, 12375, 12289, 35352, 20107, 12434, 26368, 12418,
      12424, 12367, 34920, 12377, 12479, 12464, 12434] @ ascii ''5'' @
     [12388, 31243, 24230, 12289, 26085, 26412, 35486, 12391, 29983, 25104, 12375, 12390,
      12367, 12384, 12373, 12356, 12290, 10] @ ascii ''                # '' @
     [21046, 32004, 26465, 20214, 10] @ ascii ''                '' @ [24517, 12378, 12300] @
     ascii '','' @
     [65288, 12459, 12531, 12510, 65289, 12301, 21306, 20999, 12426, 12391, 12289, 12479,
      12464, 21517, 12398, 12415, 12434, 20986, 21147, 12375, 12390, 12367, 12384, 12373,
      12356, 12290, 10] @ ascii ''                '' @ [12479, 12464, 12395, 12399, 12300] @
     ascii ''#'' @
     [12301, 12434, 20184, 12369, 12394, 12356, 12391, 12367, 12384, 12373, 12356, 12290, 10] @
     ascii ''                # '' @ [20986, 21147, 24418, 24335, 20363, 10] @
     ascii ''                '' @ [12486, 12463, 12494, 12525, 12472, 12540] @ ascii '',AI,'' @
     [26032, 35069, 21697] @ ascii '','' @ [12514, 12496, 12452, 12523] @ ascii '','' @
     [12491, 12517, 12540, 12473, 10] @ ascii ''            ''"

definition LABEL_TITLE :: ustr where
  "LABEL_TITLE = [35352, 20107, 12398, 12479, 12452, 12488, 12523] @ ascii '': ''"

definition LABEL_SUMMARY :: ustr where
  "LABEL_SUMMARY = [10, 35352, 20107, 12398, 27010, 35201] @ ascii '': ''"

definition MSG_WARN_HEAD :: ustr where
  "MSG_WARN_HEAD = [35686, 21578] @ ascii '': '' @
     [21462, 24471, 12391, 12365, 12383, 35352, 20107, 12399]"

definition MSG_WARN_TAIL :: ustr where
  "MSG_WARN_TAIL = [20214, 12391, 12375, 12383, 12290, 26368, 20302] @ ascii ''10'' @
     [20214, 12398, 35201, 20214, 12434, 28288, 12383, 12375, 12390, 12356, 12414, 12379,
      12435, 12290]"

definition MSG_RSS_ERROR :: ustr where
  "MSG_RSS_ERROR = ascii ''RSS'' @
     [21462, 24471, 20013, 12395, 12456, 12521, 12540, 12364, 30330, 29983, 12375, 12414,
      12375, 12383] @ ascii '': ''"

definition MSG_XML_ERROR :: ustr where
  "MSG_XML_ERROR = ascii ''XML'' @ [12497, 12540, 12473, 12456, 12521, 12540] @ ascii '': ''"

text \<open>
  Lines 113, 114 and 116 to 117: the three fields of an item with their fallbacks. The
  description falls back to the title already computed.
\<close>

definition item_title :: "element \<Rightarrow> ustr option" where
  "item_title item =
     (case find_child (ascii ''title'') item of
        Some el \<Rightarrow> el_text el
      | None \<Rightarrow> Some (ascii ''No Title''))"

definition item_link :: "element \<Rightarrow> ustr option" where
  "item_link item =
     (case find_child (ascii ''link'') item of
        Some el \<Rightarrow> el_text el
      | None \<Rightarrow> Some (ascii ''#''))"

definition item_description :: "ustr option \<Rightarrow> element \<Rightarrow> ustr option" where
  "item_description ttl item =
     (let description_element = find_child (ascii ''description'') item in
      case description_element of
        Some el \<Rightarrow> el_text el
      | None \<Rightarrow> ttl)"

text \<open>
  The body of the loop (lines 113 to 144) for the item at position \<open>i\<close>: the three
  fields, the prompt, the call of \<open>chat\<close>, the entry appended and the progress line.
\<close>

definition process_item :: "env \<Rightarrow> nat \<Rightarrow> element \<Rightarrow> world \<Rightarrow> (exn + article) \<times> world" where
  "process_item e i item w =
     (let ttl = item_title item;
          lnk = item_link item;
          descr = item_description ttl item;
          news_content = LABEL_TITLE @ str_opt ttl @ LABEL_SUMMARY @ str_opt descr;
          request_prompt = generate_request_prompt system_prompt news_content (1 / 2) 1
      in (case chat e request_prompt w of
            (Inl ex, w1) \<Rightarrow> (Inl ex, w1)
          | (Inr tgs, w1) \<Rightarrow>
              (Inr \<lparr>article_id = i, title = ttl, link = lnk, description = descr, tags = tgs\<rparr>,
               print (ascii ''Processed article '' @ str_nat (i + 1) @ ascii '': '' @ str_opt ttl)
                 w1)))"

text \<open>
  The loop of line 108 over \<open>enumerate(root.findall('.//item'))\<close>, with \<open>news_list\<close> as
  accumulator: it stops when the list holds 15 entries, and an exception of the body ends
  it.
\<close>

fun news_loop ::
  "env \<Rightarrow> (nat \<times> element) list \<Rightarrow> article list \<Rightarrow> world \<Rightarrow> (exn + article list) \<times> world" where
  "news_loop e [] news_list w = (Inr news_list, w)"
| "news_loop e ((i, item) # rest) news_list w =
     (if length news_list \<ge> 15 then (Inr news_list, w)
      else (case process_item e i item w of
              (Inl ex, w1) \<Rightarrow> (Inl ex, w1)
            | (Inr a, w1) \<Rightarrow> news_loop e rest (news_list @ [a]) w1))"

text \<open>\<open>jsonify\<close> of one entry, of the list, and of an error dictionary.\<close>

definition json_str_opt :: "ustr option \<Rightarrow> json" where
  "json_str_opt v = (case v of None \<Rightarrow> JNull | Some s \<Rightarrow> JStr s)"

definition jsonify_article :: "article \<Rightarrow> json" where
  "jsonify_article a =
     JObj [(''id'', JInt (int (article_id a))),
           (''title'', json_str_opt (title a)),
           (''link'', json_str_opt (link a)),
           (''description'', json_str_opt (description a)),
           (''tags'', JArr (map JStr (tags a)))]"

definition jsonify_news :: "article list \<Rightarrow> json" where
  "jsonify_news news_list = JArr (map jsonify_article news_list)"

definition jsonify_error :: "ustr \<Rightarrow> json" where
  "jsonify_error msg = JObj [(''error'', JStr msg)]"

text \<open>Lines 147 and 148: a list of fewer than 10 entries is reported on the console only.\<close>

definition warn_if_short :: "article list \<Rightarrow> world \<Rightarrow> world" where
  "warn_if_short news_list w =
     (if length news_list < 10
      then print (MSG_WARN_HEAD @ str_nat (length news_list) @ MSG_WARN_TAIL) w
      else w)"

text \<open>The body of the \<open>try\<close> of \<open>get_news\<close> (lines 100 to 150).\<close>

definition get_news_try :: "env \<Rightarrow> ustr \<Rightarrow> world \<Rightarrow> (exn + response) \<times> world" where
  "get_news_try e feed_url w =
     (let w1 = w\<lparr>feed_gets := feed_gets w @ [feed_url]\<rparr> in
      case requests_get e (length (feed_gets w)) feed_url 15 of
        Inl ex \<Rightarrow> (Inl ex, w1)
      | Inr resp \<Rightarrow>
          (case raise_for_status resp of
             Some ex \<Rightarrow> (Inl ex, w1)
           | None \<Rightarrow>
               (case ET_fromstring e (resp_content resp) of
                  Inl ex \<Rightarrow> (Inl ex, w1)
                | Inr rt \<Rightarrow>
                    (case news_loop e (enumerate 0 (findall_descendants (ascii ''item'') rt)) [] w1 of
                       (Inl ex, w2) \<Rightarrow> (Inl ex, w2)
                     | (Inr news_list, w2) \<Rightarrow>
                         (Inr \<lparr>status = 200, body = jsonify_news news_list\<rparr>,
                          warn_if_short news_list w2)))))"

text \<open>
  \<open>get_news\<close>: the registry lookup, the \<open>try\<close>, and the two handlers in their order. An
  exception neither handler catches leaves the function (\<open>Inl\<close>).
\<close>

definition get_news :: "env \<Rightarrow> ustr \<Rightarrow> world \<Rightarrow> (exn + response) \<times> world" where
  "get_news e category w =
     (let feed_url = map_of RSS_FEEDS category in
      if \<not> truthy feed_url then
        (Inr \<lparr>status = 400, body = jsonify_error (ascii ''Invalid category'')\<rparr>, w)
      else
        (let w0 = print (ascii ''Fetching news for category: '' @ category @ ascii '' from '' @
                         str_opt feed_url) w
         in (case get_news_try e (str_opt feed_url) w0 of
               (Inr r, w1) \<Rightarrow> (Inr r, w1)
             | (Inl ex, w1) \<Rightarrow>
                 if is_RequestException ex then
                   (Inr \<lparr>status = 500,
                         body = jsonify_error (ascii ''Failed to fetch RSS feed: '' @ exn_str ex)\<rparr>,
                    print (MSG_RSS_ERROR @ exn_str ex) w1)
                 else if is_ParseError ex then
                   (Inr \<lparr>status = 500,
                         body = jsonify_error (ascii ''Failed to parse RSS feed: '' @ exn_str ex)\<rparr>,
                    print (MSG_XML_ERROR @ exn_str ex) w1)
                 else (Inl ex, w1))))"

section \<open>The parsing contract in the words of the specification\<close>

text \<open>
  The specification's wording of the tag parsing, to be compared with \<open>parse_tags\<close>:
  split on the comma, trim each piece, drop the empty pieces, keep the order.
\<close>

definition spec_parse_tags :: "ustr \<Rightarrow> ustr list" where
  "spec_parse_tags text = filter (\<lambda>p. p \<noteq> []) (map strip (split COMMA text))"

section \<open>Concrete inputs\<close>

text \<open>
  An environment whose library calls always behave the same way, and the world before
  the first request.
\<close>

definition env_const ::
  "ustr option \<Rightarrow> exn + http_response \<Rightarrow> exn + element \<Rightarrow> exn + ustr option \<Rightarrow> env" where
  "env_const k fetched parsed generated =
     \<lparr>GEMINI_API_KEY = k,
      requests_get = (\<lambda>n u t. fetched),
      ET_fromstring = (\<lambda>b. parsed),
      generate_content = (\<lambda>n r. generated)\<rparr>"

definition w_init :: world where
  "w_init = \<lparr>printed = [], feed_gets = [], gen_calls = []\<rparr>"

definition TECHNOLOGY :: ustr where
  "TECHNOLOGY = [12486, 12463, 12494, 12525, 12472, 12540]"

definition TECHNOLOGY_URL :: ustr where
  "TECHNOLOGY_URL =
     ascii ''https://news.google.com/rss/headlines/section/topic/TECHNOLOGY?hl=ja&gl=JP&ceid=JP:ja''"

definition http_ok :: "nat list \<Rightarrow> http_response" where
  "http_ok bytes =
     \<lparr>status_code = 200, reason = ascii ''OK'', url = TECHNOLOGY_URL, resp_content = bytes\<rparr>"

definition http_not_modified :: http_response where
  "http_not_modified =
     \<lparr>status_code = 304, reason = ascii ''Not Modified'', url = TECHNOLOGY_URL,
      resp_content = []\<rparr>"

definition http_not_found :: http_response where
  "http_not_found =
     \<lparr>status_code = 404, reason = ascii ''Not Found'', url = TECHNOLOGY_URL,
      resp_content = []\<rparr>"

text \<open>The raw model response of the specification's example, and its three tags.\<close>

definition RAW_TAGS :: ustr where
  "RAW_TAGS = [12486, 12463, 12494, 12525, 12472, 12540] @ ascii '', AI ,'' @
     [26032, 35069, 21697] @ ascii '',''"

definition leaf :: "string \<Rightarrow> ustr option \<Rightarrow> element" where
  "leaf tg txt = Element (ascii tg) txt []"

definition feed_of :: "element list \<Rightarrow> element" where
  "feed_of items = Element (ascii ''rss'') None [Element (ascii ''channel'') None items]"

definition plain_item :: element where
  "plain_item = Element (ascii ''item'') None [leaf ''title'' (Some (ascii ''News''))]"

definition sixteen_items :: "element list" where
  "sixteen_items =
     [plain_item, plain_item, plain_item, plain_item, plain_item, plain_item, plain_item,
      plain_item, plain_item, plain_item, plain_item, plain_item, plain_item, plain_item,
      plain_item, plain_item]"

section \<open>Properties\<close>


subsection \<open>Auxiliary facts\<close>


lemma ascii_eq_Nil [simp]: "ascii s = [] \<longleftrightarrow> s = []"
  by (simp add: ascii_def)

lemma chat_prompt_Inr:
  "\<exists>tgs w'. chat e (generate_request_prompt prompt cont tmp p) w = (Inr tgs, w')"
  by (auto simp: chat_def build_request_def generate_request_prompt_def chat_try_def Let_def
      split: sum.splits option.splits prod.splits)

lemma process_item_Inr:
  "\<exists>tgs w'. process_item e i item w =
     (Inr \<lparr>article_id = i, title = item_title item, link = item_link item,
           description = item_description (item_title item) item, tags = tgs\<rparr>, w')"
proof -
  obtain tgs w1 where
    "chat e (generate_request_prompt system_prompt
        (LABEL_TITLE @ str_opt (item_title item) @ LABEL_SUMMARY @
         str_opt (item_description (item_title item) item)) (1 / 2) 1) w = (Inr tgs, w1)"
    using chat_prompt_Inr by blast
  then show ?thesis
    by (simp add: process_item_def Let_def)
qed

lemma news_loop_Inr: "\<exists>nl w'. news_loop e xs acc w = (Inr nl, w')"
proof (induction xs arbitrary: acc w)
  case Nil
  show ?case by simp
next
  case (Cons x xs)
  obtain i item where x: "x = (i, item)" by (cases x)
  obtain a w1 where a: "process_item e i item w = (Inr a, w1)"
    using process_item_Inr by blast
  from Cons.IH [of "acc @ [a]" w1] show ?case
    by (simp add: x a)
qed

lemma news_loop_shape:
  "news_loop e (enumerate i items) acc w = (Inr nl, w') \<Longrightarrow>
   \<exists>arts. nl = acc @ arts \<and> length arts = min (15 - length acc) (length items) \<and>
     (\<forall>k<length arts.
        article_id (arts ! k) = i + k \<and>
        title (arts ! k) = item_title (items ! k) \<and>
        link (arts ! k) = item_link (items ! k) \<and>
        description (arts ! k) = item_description (item_title (items ! k)) (items ! k))"
proof (induction items arbitrary: i acc w)
  case Nil
  then show ?case by simp
next
  case (Cons item rest)
  show ?case
  proof (cases "15 \<le> length acc")
    case True
    with Cons.prems show ?thesis by simp
  next
    case False
    obtain tgs w1 where a: "process_item e i item w =
       (Inr \<lparr>article_id = i, title = item_title item, link = item_link item,
           description = item_description (item_title item) item, tags = tgs\<rparr>, w1)"
      (is "_ = (Inr ?a, w1)")
      using process_item_Inr by blast
    from Cons.prems False a
    have "news_loop e (enumerate (Suc i) rest) (acc @ [?a]) w1 = (Inr nl, w')"
      by simp
    from Cons.IH [OF this] obtain arts where
      nl: "nl = (acc @ [?a]) @ arts" and
      len: "length arts = min (15 - length (acc @ [?a])) (length rest)" and
      each: "\<forall>k<length arts.
        article_id (arts ! k) = Suc i + k \<and>
        title (arts ! k) = item_title (rest ! k) \<and>
        link (arts ! k) = item_link (rest ! k) \<and>
        description (arts ! k) = item_description (item_title (rest ! k)) (rest ! k)"
      by blast
    have "nl = acc @ (?a # arts)" using nl by simp
    moreover have "length (?a # arts) = min (15 - length acc) (length (item # rest))"
      using len False by simp
    moreover have "\<forall>k<length (?a # arts).
        article_id ((?a # arts) ! k) = i + k \<and>
        title ((?a # arts) ! k) = item_title ((item # rest) ! k) \<and>
        link ((?a # arts) ! k) = item_link ((item # rest) ! k) \<and>
        description ((?a # arts) ! k) =
          item_description (item_title ((item # rest) ! k)) ((item # rest) ! k)"
    proof (intro allI impI)
      fix k assume "k < length (?a # arts)"
      then show "article_id ((?a # arts) ! k) = i + k \<and>
        title ((?a # arts) ! k) = item_title ((item # rest) ! k) \<and>
        link ((?a # arts) ! k) = item_link ((item # rest) ! k) \<and>
        description ((?a # arts) ! k) =
          item_description (item_title ((item # rest) ! k)) ((item # rest) ! k)"
        using each by (cases k) simp_all
    qed
    ultimately show ?thesis by blast
  qed
qed

lemma feed_url_truthy: "map_of RSS_FEEDS c = Some u \<Longrightarrow> u \<noteq> []"
  by (auto simp: RSS_FEEDS_def ascii_def split: if_splits)

lemma chat_no_key:
  "\<not> truthy (GEMINI_API_KEY e) \<Longrightarrow> chat e rp w = (Inr [], print MSG_NO_KEY w)"
  by (simp add: chat_def)

lemma gen_calls_print [simp]: "gen_calls (print l w) = gen_calls w"
  by (simp add: print_def)

lemma feed_gets_print [simp]: "feed_gets (print l w) = feed_gets w"
  by (simp add: print_def)

lemma printed_print [simp]: "printed (print l w) = printed w @ [l]"
  by (simp add: print_def)

lemma process_item_no_key:
  "\<not> truthy (GEMINI_API_KEY e) \<Longrightarrow> process_item e i item w = (Inr a, w') \<Longrightarrow>
     tags a = [] \<and> gen_calls w' = gen_calls w \<and> feed_gets w' = feed_gets w"
  by (auto simp: process_item_def Let_def chat_no_key)

lemma news_loop_no_key:
  "\<not> truthy (GEMINI_API_KEY e) \<Longrightarrow> news_loop e xs acc w = (Inr nl, w') \<Longrightarrow>
     gen_calls w' = gen_calls w \<and> (\<forall>a \<in> set nl. a \<in> set acc \<or> tags a = [])"
proof (induction xs arbitrary: acc w)
  case Nil
  then show ?case by simp
next
  case (Cons x xs)
  obtain i item where x: "x = (i, item)" by (cases x)
  show ?case
  proof (cases "15 \<le> length acc")
    case True
    with Cons.prems show ?thesis by (simp add: x)
  next
    case False
    obtain a w1 where a: "process_item e i item w = (Inr a, w1)"
      using process_item_Inr by blast
    from process_item_no_key [OF Cons.prems(1) a]
    have ta: "tags a = []" and g1: "gen_calls w1 = gen_calls w" by simp_all
    from Cons.prems(2) False a
    have "news_loop e xs (acc @ [a]) w1 = (Inr nl, w')" by (simp add: x)
    from Cons.IH [OF Cons.prems(1) this] ta g1 show ?thesis by auto
  qed
qed

lemma chat_feed_gets: "chat e rp w = (r, w') \<Longrightarrow> feed_gets w' = feed_gets w"
  by (auto simp: chat_def chat_try_def Let_def split: if_splits sum.splits option.splits)

lemma process_item_feed_gets: "process_item e i item w = (r, w') \<Longrightarrow> feed_gets w' = feed_gets w"
  by (auto simp: process_item_def Let_def split: prod.splits sum.splits dest: chat_feed_gets)

lemma news_loop_feed_gets: "news_loop e xs acc w = (r, w') \<Longrightarrow> feed_gets w' = feed_gets w"
proof (induction xs arbitrary: acc w)
  case Nil
  then show ?case by simp
next
  case (Cons x xs)
  obtain i item where x: "x = (i, item)" by (cases x)
  obtain a w1 where a: "process_item e i item w = (Inr a, w1)"
    using process_item_Inr by blast
  have f1: "feed_gets w1 = feed_gets w" using process_item_feed_gets [OF a] .
  show ?case
  proof (cases "15 \<le> length acc")
    case True
    with Cons.prems show ?thesis by (simp add: x)
  next
    case False
    with Cons.prems a have "news_loop e xs (acc @ [a]) w1 = (r, w')" by (simp add: x)
    from Cons.IH [OF this] f1 show ?thesis by simp
  qed
qed

lemma get_news_try_ok:
  assumes "requests_get e (length (feed_gets w)) u 15 = Inr resp"
    and "raise_for_status resp = None"
    and "ET_fromstring e (resp_content resp) = Inr rt"
  shows "\<exists>nl w2.
     news_loop e (enumerate 0 (findall_descendants (ascii ''item'') rt)) []
       (w\<lparr>feed_gets := feed_gets w @ [u]\<rparr>) = (Inr nl, w2) \<and>
     get_news_try e u w = (Inr \<lparr>status = 200, body = jsonify_news nl\<rparr>, warn_if_short nl w2)"
proof -
  obtain nl w2 where
    "news_loop e (enumerate 0 (findall_descendants (ascii ''item'') rt)) []
       (w\<lparr>feed_gets := feed_gets w @ [u]\<rparr>) = (Inr nl, w2)"
    using news_loop_Inr by blast
  with assms show ?thesis
    by (simp add: get_news_try_def Let_def warn_if_short_def)
qed

lemma get_news_try_cases:
  assumes "get_news_try e u w = (r, w')"
  shows "(\<exists>ex. r = Inl ex \<and> w' = w\<lparr>feed_gets := feed_gets w @ [u]\<rparr> \<and>
            (requests_get e (length (feed_gets w)) u 15 = Inl ex \<or>
             (\<exists>resp. requests_get e (length (feed_gets w)) u 15 = Inr resp \<and>
                (raise_for_status resp = Some ex \<or>
                 raise_for_status resp = None \<and> ET_fromstring e (resp_content resp) = Inl ex)))) \<or>
         (\<exists>resp rt nl w2.
            requests_get e (length (feed_gets w)) u 15 = Inr resp \<and>
            raise_for_status resp = None \<and>
            ET_fromstring e (resp_content resp) = Inr rt \<and>
            news_loop e (enumerate 0 (findall_descendants (ascii ''item'') rt)) []
              (w\<lparr>feed_gets := feed_gets w @ [u]\<rparr>) = (Inr nl, w2) \<and>
            r = Inr \<lparr>status = 200, body = jsonify_news nl\<rparr> \<and> w' = warn_if_short nl w2)"
proof (cases "requests_get e (length (feed_gets w)) u 15")
  case (Inl ex)
  with assms show ?thesis by (auto simp: get_news_try_def Let_def)
next
  case (Inr resp)
  note fetched = this
  show ?thesis
  proof (cases "raise_for_status resp")
    case (Some ex)
    with assms fetched show ?thesis by (auto simp: get_news_try_def Let_def)
  next
    case None
    note ok = this
    show ?thesis
    proof (cases "ET_fromstring e (resp_content resp)")
      case (Inl ex)
      with assms fetched ok show ?thesis by (auto simp: get_news_try_def Let_def)
    next
      case (Inr rt)
      from get_news_try_ok [OF fetched ok Inr] assms fetched ok Inr
      show ?thesis by auto
    qed
  qed
qed

lemma get_news_registered:
  assumes "map_of RSS_FEEDS category = Some u"
  shows "get_news e category w =
     (case get_news_try e u
             (print (ascii ''Fetching news for category: '' @ category @ ascii '' from '' @ u) w) of
        (Inr r, w1) \<Rightarrow> (Inr r, w1)
      | (Inl ex, w1) \<Rightarrow>
          if is_RequestException ex then
            (Inr \<lparr>status = 500,
                  body = jsonify_error (ascii ''Failed to fetch RSS feed: '' @ exn_str ex)\<rparr>,
             print (MSG_RSS_ERROR @ exn_str ex) w1)
          else if is_ParseError ex then
            (Inr \<lparr>status = 500,
                  body = jsonify_error (ascii ''Failed to parse RSS feed: '' @ exn_str ex)\<rparr>,
             print (MSG_XML_ERROR @ exn_str ex) w1)
          else (Inl ex, w1))"
  using assms feed_url_truthy [OF assms]
  by (simp add: get_news_def Let_def truthy_def str_opt_def)

lemma get_news_ok:
  assumes "map_of RSS_FEEDS category = Some u"
    and "requests_get e (length (feed_gets w)) u 15 = Inr resp"
    and "raise_for_status resp = None"
    and "ET_fromstring e (resp_content resp) = Inr rt"
  shows "\<exists>nl w1 w2.
     news_loop e (enumerate 0 (findall_descendants (ascii ''item'') rt)) [] w1 = (Inr nl, w2) \<and>
     gen_calls w1 = gen_calls w \<and>
     get_news e category w = (Inr \<lparr>status = 200, body = jsonify_news nl\<rparr>, warn_if_short nl w2)"
proof -
  let ?w0 = "print (ascii ''Fetching news for category: '' @ category @ ascii '' from '' @ u) w"
  have "requests_get e (length (feed_gets ?w0)) u 15 = Inr resp"
    using assms(2) by simp
  from get_news_try_ok [OF this assms(3) assms(4)] obtain nl w2 where
    loop: "news_loop e (enumerate 0 (findall_descendants (ascii ''item'') rt)) []
       (?w0\<lparr>feed_gets := feed_gets ?w0 @ [u]\<rparr>) = (Inr nl, w2)" and
    tried: "get_news_try e u ?w0 = (Inr \<lparr>status = 200, body = jsonify_news nl\<rparr>, warn_if_short nl w2)"
    by blast
  have "get_news e category w = (Inr \<lparr>status = 200, body = jsonify_news nl\<rparr>, warn_if_short nl w2)"
    by (simp add: get_news_registered [OF assms(1)] tried)
  moreover have "gen_calls (?w0\<lparr>feed_gets := feed_gets ?w0 @ [u]\<rparr>) = gen_calls w"
    by simp
  ultimately show ?thesis using loop by blast
qed


lemma gen_calls_warn_if_short [simp]: "gen_calls (warn_if_short nl w) = gen_calls w"
  by (simp add: warn_if_short_def)

lemma feed_gets_warn_if_short [simp]: "feed_gets (warn_if_short nl w) = feed_gets w"
  by (simp add: warn_if_short_def)

lemma jsonify_article_inj: "jsonify_article a = jsonify_article b \<Longrightarrow> a = b"
proof -
  assume eq: "jsonify_article a = jsonify_article b"
  have "article_id a = article_id b" using eq by (simp add: jsonify_article_def)
  moreover have "title a = title b"
    using eq by (auto simp: jsonify_article_def json_str_opt_def split: option.splits)
  moreover have "link a = link b"
    using eq by (auto simp: jsonify_article_def json_str_opt_def split: option.splits)
  moreover have "description a = description b"
    using eq by (auto simp: jsonify_article_def json_str_opt_def split: option.splits)
  moreover have "map JStr (tags a) = map JStr (tags b)"
    using eq by (simp add: jsonify_article_def)
  then have "tags a = tags b"
    by (simp add: inj_map_eq_map inj_on_def)
  ultimately show "a = b" by simp
qed

lemma jsonify_news_inj: "jsonify_news xs = jsonify_news ys \<Longrightarrow> xs = ys"
proof -
  assume "jsonify_news xs = jsonify_news ys"
  then have "map jsonify_article xs = map jsonify_article ys"
    by (simp add: jsonify_news_def)
  moreover have "inj jsonify_article"
    by (rule injI) (rule jsonify_article_inj)
  ultimately show "xs = ys" by (simp add: inj_map_eq_map)
qed

lemma get_news_unregistered:
  "map_of RSS_FEEDS category = None \<Longrightarrow>
   get_news e category w =
     (Inr \<lparr>status = 400, body = jsonify_error (ascii ''Invalid category'')\<rparr>, w)"
  by (simp add: get_news_def truthy_def)

lemma get_news_no_key:
  assumes nokey: "\<not> truthy (GEMINI_API_KEY e)"
    and run: "get_news e category w = (r, w')"
  shows "gen_calls w' = gen_calls w \<and>
     (\<forall>nl. r = Inr \<lparr>status = 200, body = jsonify_news nl\<rparr> \<longrightarrow> (\<forall>a \<in> set nl. tags a = []))"
proof (cases "map_of RSS_FEEDS category")
  case None
  from get_news_unregistered [OF None, of e w] run show ?thesis by auto
next
  case (Some u)
  let ?w0 = "print (ascii ''Fetching news for category: '' @ category @ ascii '' from '' @ u) w"
  obtain r0 w1 where tried: "get_news_try e u ?w0 = (r0, w1)"
    by (cases "get_news_try e u ?w0")
  from get_news_try_cases [OF tried] show ?thesis
  proof
    assume "\<exists>ex. r0 = Inl ex \<and> w1 = ?w0\<lparr>feed_gets := feed_gets ?w0 @ [u]\<rparr> \<and>
            (requests_get e (length (feed_gets ?w0)) u 15 = Inl ex \<or>
             (\<exists>resp. requests_get e (length (feed_gets ?w0)) u 15 = Inr resp \<and>
                (raise_for_status resp = Some ex \<or>
                 raise_for_status resp = None \<and> ET_fromstring e (resp_content resp) = Inl ex)))"
    then obtain ex where "r0 = Inl ex" and "w1 = ?w0\<lparr>feed_gets := feed_gets ?w0 @ [u]\<rparr>"
      by blast
    with run tried show ?thesis
      by (auto simp: get_news_registered [OF Some] split: if_splits)
  next
    assume "\<exists>resp rt nl w2.
            requests_get e (length (feed_gets ?w0)) u 15 = Inr resp \<and>
            raise_for_status resp = None \<and>
            ET_fromstring e (resp_content resp) = Inr rt \<and>
            news_loop e (enumerate 0 (findall_descendants (ascii ''item'') rt)) []
              (?w0\<lparr>feed_gets := feed_gets ?w0 @ [u]\<rparr>) = (Inr nl, w2) \<and>
            r0 = Inr \<lparr>status = 200, body = jsonify_news nl\<rparr> \<and> w1 = warn_if_short nl w2"
    then obtain rt nl0 w2 where
      loop: "news_loop e (enumerate 0 (findall_descendants (ascii ''item'') rt)) []
              (?w0\<lparr>feed_gets := feed_gets ?w0 @ [u]\<rparr>) = (Inr nl0, w2)" and
      r0: "r0 = Inr \<lparr>status = 200, body = jsonify_news nl0\<rparr>" and
      w1: "w1 = warn_if_short nl0 w2"
      by blast
    from news_loop_no_key [OF nokey loop]
    have g: "gen_calls w2 = gen_calls w" and t: "\<forall>a \<in> set nl0. tags a = []"
      by simp_all
    from run tried r0 w1 have r: "r = Inr \<lparr>status = 200, body = jsonify_news nl0\<rparr>"
      and w': "w' = warn_if_short nl0 w2"
      by (simp_all add: get_news_registered [OF Some])
    show ?thesis
    proof (intro conjI allI impI)
      show "gen_calls w' = gen_calls w" using w' g by simp
    next
      fix nl
      assume "r = Inr \<lparr>status = 200, body = jsonify_news nl\<rparr>"
      with r have "jsonify_news nl = jsonify_news nl0" by simp
      then have "nl = nl0" by (rule jsonify_news_inj)
      with t show "\<forall>a \<in> set nl. tags a = []" by simp
    qed
  qed
qed

lemma split_not_Nil: "split sep s \<noteq> []"
  by (induction s) (auto split: list.splits)

lemma split_no_sep: "p \<in> set (split sep s) \<Longrightarrow> sep \<notin> set p"
proof (induction s arbitrary: p)
  case Nil
  then show ?case by simp
next
  case (Cons c cs)
  show ?case
  proof (cases "c = sep")
    case True
    with Cons show ?thesis by auto
  next
    case False
    obtain q qs where q: "split sep cs = q # qs"
      using split_not_Nil [of sep cs] by (cases "split sep cs") auto
    with Cons.prems False have "p = c # q \<or> p \<in> set qs" by auto
    then show ?thesis
    proof
      assume "p = c # q"
      moreover have "sep \<notin> set q" using Cons.IH [of q] q by simp
      ultimately show ?thesis using False by auto
    next
      assume "p \<in> set qs"
      then show ?thesis using Cons.IH [of p] q by simp
    qed
  qed
qed

lemma set_strip: "set (strip s) \<subseteq> set s"
proof
  fix x assume "x \<in> set (strip s)"
  then have "x \<in> set (dropWhile isspace (rev (dropWhile isspace s)))"
    by (simp add: strip_def)
  then have "x \<in> set (rev (dropWhile isspace s))" by (rule set_dropWhileD)
  then have "x \<in> set (dropWhile isspace s)" by simp
  then show "x \<in> set s" by (rule set_dropWhileD)
qed

lemma strip_ends:
  assumes "strip s \<noteq> []"
  shows "\<not> isspace (hd (strip s)) \<and> \<not> isspace (last (strip s))"
proof -
  let ?d = "dropWhile isspace s"
  let ?r = "dropWhile isspace (rev ?d)"
  have r: "?r \<noteq> []" using assms by (simp add: strip_def)
  have d: "?d \<noteq> []"
  proof
    assume e: "?d = []"
    have "?r = []" unfolding e by simp
    with r show False by contradiction
  qed
  have "\<not> isspace (hd ?r)" using r by (rule hd_dropWhile)
  then have l: "\<not> isspace (last (strip s))"
    using r by (simp add: strip_def last_rev)
  have "rev ?d = takeWhile isspace (rev ?d) @ ?r" by simp
  then have "?d = rev ?r @ rev (takeWhile isspace (rev ?d))"
    by (metis rev_append rev_rev_ident)
  then have "hd ?d = hd (rev ?r)"
    using r by (metis hd_append2 rev_is_Nil_conv)
  moreover have "\<not> isspace (hd ?d)" using d by (rule hd_dropWhile)
  ultimately have "\<not> isspace (hd (strip s))" by (simp add: strip_def)
  with l show ?thesis by simp
qed

lemma parse_tags_spec: "parse_tags s = spec_parse_tags s"
  by (simp add: parse_tags_def spec_parse_tags_def filter_map comp_def)

lemma parse_tags_each:
  assumes "t \<in> set (parse_tags s)"
  shows "t \<noteq> [] \<and> COMMA \<notin> set t \<and> \<not> isspace (hd t) \<and> \<not> isspace (last t)"
proof -
  from assms obtain p where p: "p \<in> set (split COMMA s)" and ne: "strip p \<noteq> []"
    and t: "t = strip p"
    by (auto simp: parse_tags_def)
  have "COMMA \<notin> set p" using p by (rule split_no_sep)
  then have "COMMA \<notin> set t" using set_strip [of p] t by auto
  with ne t strip_ends [OF ne] show ?thesis by simp
qed

lemma parse_tags_example:
  "parse_tags RAW_TAGS =
     [[12486, 12463, 12494, 12525, 12472, 12540], ascii ''AI'', [26032, 35069, 21697]]"
  by (simp add: parse_tags_def RAW_TAGS_def ascii_def COMMA_def strip_def isspace_def)

lemma get_news_feed_gets:
  assumes "map_of RSS_FEEDS category = Some u"
  shows "feed_gets (snd (get_news e category w)) = feed_gets w @ [u]"
proof -
  let ?w0 = "print (ascii ''Fetching news for category: '' @ category @ ascii '' from '' @ u) w"
  obtain r0 w1 where tried: "get_news_try e u ?w0 = (r0, w1)"
    by (cases "get_news_try e u ?w0")
  from get_news_try_cases [OF tried] show ?thesis
  proof
    assume "\<exists>ex. r0 = Inl ex \<and> w1 = ?w0\<lparr>feed_gets := feed_gets ?w0 @ [u]\<rparr> \<and>
            (requests_get e (length (feed_gets ?w0)) u 15 = Inl ex \<or>
             (\<exists>resp. requests_get e (length (feed_gets ?w0)) u 15 = Inr resp \<and>
                (raise_for_status resp = Some ex \<or>
                 raise_for_status resp = None \<and> ET_fromstring e (resp_content resp) = Inl ex)))"
    then obtain ex where "r0 = Inl ex" and "w1 = ?w0\<lparr>feed_gets := feed_gets ?w0 @ [u]\<rparr>"
      by blast
    with tried show ?thesis
      by (simp add: get_news_registered [OF assms])
  next
    assume "\<exists>resp rt nl w2.
            requests_get e (length (feed_gets ?w0)) u 15 = Inr resp \<and>
            raise_for_status resp = None \<and>
            ET_fromstring e (resp_content resp) = Inr rt \<and>
            news_loop e (enumerate 0 (findall_descendants (ascii ''item'') rt)) []
              (?w0\<lparr>feed_gets := feed_gets ?w0 @ [u]\<rparr>) = (Inr nl, w2) \<and>
            r0 = Inr \<lparr>status = 200, body = jsonify_news nl\<rparr> \<and> w1 = warn_if_short nl w2"
    then obtain rt nl0 w2 where
      loop: "news_loop e (enumerate 0 (findall_descendants (ascii ''item'') rt)) []
              (?w0\<lparr>feed_gets := feed_gets ?w0 @ [u]\<rparr>) = (Inr nl0, w2)" and
      r0: "r0 = Inr \<lparr>status = 200, body = jsonify_news nl0\<rparr>" and
      w1: "w1 = warn_if_short nl0 w2"
      by blast
    from news_loop_feed_gets [OF loop] have "feed_gets w2 = feed_gets w @ [u]" by simp
    with tried r0 w1 show ?thesis
      by (simp add: get_news_registered [OF assms])
  qed
qed

lemma get_news_fetch_raises:
  assumes "map_of RSS_FEEDS category = Some u"
    and "requests_get e (length (feed_gets w)) u 15 = Inl ex"
  shows "fst (get_news e category w) =
     (if is_RequestException ex then
        Inr \<lparr>status = 500,
             body = jsonify_error (ascii ''Failed to fetch RSS feed: '' @ exn_str ex)\<rparr>
      else if is_ParseError ex then
        Inr \<lparr>status = 500,
             body = jsonify_error (ascii ''Failed to parse RSS feed: '' @ exn_str ex)\<rparr>
      else Inl ex)"
  using assms(2)
  by (simp add: get_news_registered [OF assms(1)] get_news_try_def Let_def)

lemma get_news_status_raises:
  assumes "map_of RSS_FEEDS category = Some u"
    and "requests_get e (length (feed_gets w)) u 15 = Inr resp"
    and "raise_for_status resp = Some (HTTPError m)"
  shows "fst (get_news e category w) =
     Inr \<lparr>status = 500, body = jsonify_error (ascii ''Failed to fetch RSS feed: '' @ m)\<rparr>"
  using assms(2,3)
  by (simp add: get_news_registered [OF assms(1)] get_news_try_def Let_def)

lemma get_news_parse_raises:
  assumes "map_of RSS_FEEDS category = Some u"
    and "requests_get e (length (feed_gets w)) u 15 = Inr resp"
    and "raise_for_status resp = None"
    and "ET_fromstring e (resp_content resp) = Inl ex"
    and "is_ParseError ex"
  shows "fst (get_news e category w) =
     Inr \<lparr>status = 500, body = jsonify_error (ascii ''Failed to parse RSS feed: '' @ exn_str ex)\<rparr>"
proof -
  from assms(5) obtain m where "ex = ParseError m" by (cases ex) simp_all
  with assms(2,3,4) show ?thesis
    by (simp add: get_news_registered [OF assms(1)] get_news_try_def Let_def)
qed

lemma raise_for_status_error:
  "400 \<le> status_code resp \<Longrightarrow> status_code resp < 600 \<Longrightarrow>
   \<exists>m. raise_for_status resp = Some (HTTPError m)"
  by (simp add: raise_for_status_def)

lemma raise_for_status_None:
  "raise_for_status resp = None \<longleftrightarrow> \<not> (400 \<le> status_code resp \<and> status_code resp < 600)"
  by (auto simp: raise_for_status_def)

lemma registry_technology: "map_of RSS_FEEDS TECHNOLOGY = Some TECHNOLOGY_URL"
  by (simp add: RSS_FEEDS_def TECHNOLOGY_def TECHNOLOGY_URL_def)

lemma items_of_feed:
  "findall_descendants (ascii ''item'') (feed_of [Element (ascii ''item'') None []]) =
     [Element (ascii ''item'') None []]"
  by (simp add: findall_descendants_def feed_of_def ascii_def)

subsection \<open>The claims\<close>

text \<open>
  C1. The tag generator never fails outward. For a prompt built by
  \<open>generate_request_prompt\<close>, as the route builds it for every article, \<open>chat\<close> returns a
  list and raises nothing. With the credential missing it prints one line and returns the
  empty list; when the call of the service raises (a network failure) or the response has
  no text (a malformed response), it prints the exception and returns the empty list. So
  the body of the loop and the loop itself never raise.
\<close>

theorem chat_never_fails_outward:
  "(\<exists>tgs w'. chat e (generate_request_prompt prompt cont tmp p) w = (Inr tgs, w')) \<and>
   (\<not> truthy (GEMINI_API_KEY e) \<longrightarrow> chat e rp w = (Inr [], print MSG_NO_KEY w)) \<and>
   (\<forall>req ex. truthy (GEMINI_API_KEY e) \<and> build_request e rp = Inr req \<and>
        generate_content e (length (gen_calls w)) req = Inl ex \<longrightarrow>
        chat e rp w =
          (Inr [], print (MSG_GEMINI_ERROR @ exn_str ex) (w\<lparr>gen_calls := gen_calls w @ [req]\<rparr>))) \<and>
   (\<forall>req. truthy (GEMINI_API_KEY e) \<and> build_request e rp = Inr req \<and>
        generate_content e (length (gen_calls w)) req = Inr None \<longrightarrow>
        chat e rp w =
          (Inr [], print (MSG_GEMINI_ERROR @ MSG_NONE_SPLIT) (w\<lparr>gen_calls := gen_calls w @ [req]\<rparr>))) \<and>
   (\<exists>a w'. process_item e i item w = (Inr a, w')) \<and>
   (\<exists>news_list w'. news_loop e items acc w = (Inr news_list, w'))"
proof (intro conjI allI impI)
  show "\<exists>tgs w'. chat e (generate_request_prompt prompt cont tmp p) w = (Inr tgs, w')"
    by (rule chat_prompt_Inr)
next
  assume "\<not> truthy (GEMINI_API_KEY e)"
  then show "chat e rp w = (Inr [], print MSG_NO_KEY w)" by (rule chat_no_key)
next
  fix req ex
  assume "truthy (GEMINI_API_KEY e) \<and> build_request e rp = Inr req \<and>
        generate_content e (length (gen_calls w)) req = Inl ex"
  then show "chat e rp w =
      (Inr [], print (MSG_GEMINI_ERROR @ exn_str ex) (w\<lparr>gen_calls := gen_calls w @ [req]\<rparr>))"
    by (simp add: chat_def chat_try_def)
next
  fix req
  assume "truthy (GEMINI_API_KEY e) \<and> build_request e rp = Inr req \<and>
        generate_content e (length (gen_calls w)) req = Inr None"
  then show "chat e rp w =
      (Inr [], print (MSG_GEMINI_ERROR @ MSG_NONE_SPLIT) (w\<lparr>gen_calls := gen_calls w @ [req]\<rparr>))"
    by (simp add: chat_def chat_try_def)
next
  show "\<exists>a w'. process_item e i item w = (Inr a, w')"
    using process_item_Inr by blast
next
  show "\<exists>news_list w'. news_loop e items acc w = (Inr news_list, w')"
    by (rule news_loop_Inr)
qed

theorem chat_never_fails_outward_witness:
  "fst (chat (env_const None (Inr (http_ok [])) (Inr (feed_of [])) (Inr None))
          (generate_request_prompt system_prompt (ascii ''x'') (1 / 2) 1) w_init) = Inr [] \<and>
   chat (env_const (Some (ascii ''k'')) (Inr (http_ok [])) (Inr (feed_of []))
          (Inl (ConnectionError (ascii ''connection refused''))))
        (generate_request_prompt system_prompt (ascii ''x'') (1 / 2) 1) w_init =
     (Inr [],
      \<lparr>printed = [MSG_GEMINI_ERROR @ ascii ''connection refused''], feed_gets = [],
       gen_calls = [\<lparr>api_key = ascii ''k'', model = ascii ''gemini-2.5-flash'',
                     contents = ascii ''x'',
                     gen_config = \<lparr>system_instruction = system_prompt, max_output_tokens = 1024,
                                   cfg_temperature = 1 / 2, top_p = 1\<rparr>\<rparr>]\<rparr>) \<and>
   fst (chat (env_const (Some (ascii ''k'')) (Inr (http_ok [])) (Inr (feed_of [])) (Inr None))
          (generate_request_prompt system_prompt (ascii ''x'') (1 / 2) 1) w_init) = Inr []"
  using
    chat_never_fails_outward [where e = "env_const None (Inr (http_ok [])) (Inr (feed_of [])) (Inr None)"
      and rp = "generate_request_prompt system_prompt (ascii ''x'') (1 / 2) 1" and w = w_init]
    chat_never_fails_outward [where e = "env_const (Some (ascii ''k'')) (Inr (http_ok [])) (Inr (feed_of []))
          (Inl (ConnectionError (ascii ''connection refused'')))"
      and rp = "generate_request_prompt system_prompt (ascii ''x'') (1 / 2) 1" and w = w_init]
    chat_never_fails_outward [where e = "env_const (Some (ascii ''k'')) (Inr (http_ok [])) (Inr (feed_of [])) (Inr None)"
      and rp = "generate_request_prompt system_prompt (ascii ''x'') (1 / 2) 1" and w = w_init]
  by (simp add: env_const_def truthy_def build_request_def generate_request_prompt_def
      w_init_def print_def str_opt_def)

text \<open>
  C2. When the feed is fetched and parsed, the response is 200 with an array of
  \<open>min 15 n\<close> articles, \<open>n\<close> being the number of item elements of the document: never more
  than 15. The article at position \<open>k\<close> has id \<open>k\<close> and the fields of the \<open>k\<close>-th item in
  document order. With 15 items or more the array has exactly 15 articles, with the ids
  0 to 14.
\<close>

theorem articles_in_feed_order_capped:
  assumes "map_of RSS_FEEDS category = Some feed_url"
    and "requests_get e (length (feed_gets w)) feed_url 15 = Inr resp"
    and "raise_for_status resp = None"
    and "ET_fromstring e (resp_content resp) = Inr rt"
  shows "\<exists>news_list w'.
     get_news e category w =
       (Inr \<lparr>status = 200, body = JArr (map jsonify_article news_list)\<rparr>, w') \<and>
     length news_list = min 15 (length (findall_descendants (ascii ''item'') rt)) \<and>
     length news_list \<le> 15 \<and>
     map article_id news_list = [0..<length news_list] \<and>
     (\<forall>k<length news_list.
        article_id (news_list ! k) = k \<and>
        title (news_list ! k) = item_title (findall_descendants (ascii ''item'') rt ! k) \<and>
        link (news_list ! k) = item_link (findall_descendants (ascii ''item'') rt ! k) \<and>
        description (news_list ! k) =
          item_description (item_title (findall_descendants (ascii ''item'') rt ! k))
            (findall_descendants (ascii ''item'') rt ! k)) \<and>
     (15 \<le> length (findall_descendants (ascii ''item'') rt) \<longrightarrow>
        length news_list = 15 \<and> map article_id news_list = [0..<15])"
proof -
  let ?items = "findall_descendants (ascii ''item'') rt"
  from get_news_ok [OF assms] obtain nl w1 w2 where
    loop: "news_loop e (enumerate 0 ?items) [] w1 = (Inr nl, w2)"
    and run: "get_news e category w =
      (Inr \<lparr>status = 200, body = jsonify_news nl\<rparr>, warn_if_short nl w2)"
    by blast
  from news_loop_shape [OF loop]
  have len: "length nl = min 15 (length ?items)"
    and each: "\<forall>k<length nl.
        article_id (nl ! k) = k \<and>
        title (nl ! k) = item_title (?items ! k) \<and>
        link (nl ! k) = item_link (?items ! k) \<and>
        description (nl ! k) = item_description (item_title (?items ! k)) (?items ! k)"
    by auto
  have ids: "map article_id nl = [0..<length nl]"
    using each by (intro nth_equalityI) simp_all
  have full: "15 \<le> length ?items \<longrightarrow> length nl = 15 \<and> map article_id nl = [0..<15]"
    using len ids by auto
  have "length nl \<le> 15" using len by simp
  with run len each ids full show ?thesis
    unfolding jsonify_news_def by blast
qed

theorem articles_in_feed_order_capped_witness:
  "15 \<le> length (findall_descendants (ascii ''item'') (feed_of sixteen_items)) \<and>
   (case fst (get_news (env_const None (Inr (http_ok [])) (Inr (feed_of sixteen_items)) (Inr None))
                TECHNOLOGY w_init) of
      Inl ex \<Rightarrow> False
    | Inr r \<Rightarrow> status r = 200 \<and>
        (case body r of
           JArr js \<Rightarrow> length js = 15 \<and> js ! 14 =
             JObj [(''id'', JInt 14), (''title'', JStr (ascii ''News'')),
                   (''link'', JStr (ascii ''#'')), (''description'', JStr (ascii ''News'')),
                   (''tags'', JArr [])]
         | _ \<Rightarrow> False))"
proof -
  let ?e = "env_const None (Inr (http_ok [])) (Inr (feed_of sixteen_items)) (Inr None)"
  let ?items = "findall_descendants (ascii ''item'') (feed_of sixteen_items)"
  have a: "requests_get ?e (length (feed_gets w_init)) TECHNOLOGY_URL 15 = Inr (http_ok [])"
    by (simp add: env_const_def)
  have b: "raise_for_status (http_ok []) = None"
    by (simp add: raise_for_status_def http_ok_def)
  have c: "ET_fromstring ?e (resp_content (http_ok [])) = Inr (feed_of sixteen_items)"
    by (simp add: env_const_def)
  have d: "?items = sixteen_items"
    by (simp add: findall_descendants_def feed_of_def sixteen_items_def plain_item_def leaf_def
        ascii_def)
  have n: "length sixteen_items = 16" by (simp add: sixteen_items_def)
  have i14: "sixteen_items ! 14 = plain_item" by (simp add: sixteen_items_def)
  have ttl: "item_title plain_item = Some (ascii ''News'')"
    by (simp add: item_title_def find_child_def plain_item_def leaf_def)
  have lnk: "item_link plain_item = Some (ascii ''#'')"
    by (simp add: item_link_def find_child_def plain_item_def leaf_def ascii_def)
  have dsc: "item_description (Some (ascii ''News'')) plain_item = Some (ascii ''News'')"
    by (simp add: item_description_def find_child_def plain_item_def leaf_def ascii_def)
  from articles_in_feed_order_capped [OF registry_technology a b c] obtain nl w' where
    run: "get_news ?e TECHNOLOGY w_init =
       (Inr \<lparr>status = 200, body = JArr (map jsonify_article nl)\<rparr>, w')"
    and each: "\<forall>k<length nl.
        article_id (nl ! k) = k \<and>
        title (nl ! k) = item_title (?items ! k) \<and>
        link (nl ! k) = item_link (?items ! k) \<and>
        description (nl ! k) = item_description (item_title (?items ! k)) (?items ! k)"
    and full: "15 \<le> length ?items \<longrightarrow> length nl = 15 \<and> map article_id nl = [0..<15]"
    by blast
  have big: "15 \<le> length ?items" using d n by simp
  with full have len: "length nl = 15" by simp
  from each len have f: "article_id (nl ! 14) = 14 \<and> title (nl ! 14) = Some (ascii ''News'') \<and>
      link (nl ! 14) = Some (ascii ''#'') \<and> description (nl ! 14) = Some (ascii ''News'')"
    by (simp add: d i14 ttl lnk dsc)
  have nokey: "GEMINI_API_KEY ?e = None" by (simp add: env_const_def)
  have "tags (nl ! 14) = []"
  proof -
    have "get_news ?e TECHNOLOGY w_init =
       (Inr \<lparr>status = 200, body = jsonify_news nl\<rparr>, w')"
      using run by (simp add: jsonify_news_def)
    with get_news_no_key [of ?e TECHNOLOGY w_init _ w'] nokey
    have "\<forall>a \<in> set nl. tags a = []" by (simp add: truthy_def)
    then show ?thesis using len by simp
  qed
  with f have "jsonify_article (nl ! 14) =
     JObj [(''id'', JInt 14), (''title'', JStr (ascii ''News'')),
           (''link'', JStr (ascii ''#'')), (''description'', JStr (ascii ''News'')),
           (''tags'', JArr [])]"
    by (simp add: jsonify_article_def json_str_opt_def)
  with run len big show ?thesis by simp
qed

text \<open>
  C3. With GEMINI_API_KEY unset, \<open>chat\<close> returns the empty list at once, after printing one
  line, and sends no request to the generative service; a whole request of the route
  sends none either, and every article it returns has the empty list as its tags.
\<close>

theorem no_credential_no_tags_no_call:
  assumes "GEMINI_API_KEY e = None"
  shows "chat e rp w = (Inr [], print MSG_NO_KEY w) \<and>
     gen_calls (snd (chat e rp w)) = gen_calls w \<and>
     gen_calls (snd (get_news e category w)) = gen_calls w \<and>
     (\<forall>news_list w'.
        get_news e category w = (Inr \<lparr>status = 200, body = jsonify_news news_list\<rparr>, w') \<longrightarrow>
        (\<forall>a \<in> set news_list. tags a = []))"
proof -
  have nokey: "\<not> truthy (GEMINI_API_KEY e)" using assms by (simp add: truthy_def)
  have c: "chat e rp w = (Inr [], print MSG_NO_KEY w)" by (rule chat_no_key [OF nokey])
  obtain r w1 where run: "get_news e category w = (r, w1)" by (cases "get_news e category w")
  from get_news_no_key [OF nokey run] c run show ?thesis by auto
qed

theorem no_credential_no_tags_no_call_witness:
  "GEMINI_API_KEY (env_const None (Inr (http_ok []))
       (Inr (feed_of [Element (ascii ''item'') None []])) (Inr (Some RAW_TAGS))) = None \<and>
   fst (get_news (env_const None (Inr (http_ok []))
       (Inr (feed_of [Element (ascii ''item'') None []])) (Inr (Some RAW_TAGS))) TECHNOLOGY w_init) =
     Inr \<lparr>status = 200,
          body = jsonify_news [\<lparr>article_id = 0, title = Some (ascii ''No Title''),
                   link = Some (ascii ''#''), description = Some (ascii ''No Title''),
                   tags = []\<rparr>]\<rparr> \<and>
   gen_calls (snd (get_news (env_const None (Inr (http_ok []))
       (Inr (feed_of [Element (ascii ''item'') None []])) (Inr (Some RAW_TAGS))) TECHNOLOGY w_init)) = []"
proof -
  let ?e = "env_const None (Inr (http_ok []))
       (Inr (feed_of [Element (ascii ''item'') None []])) (Inr (Some RAW_TAGS))"
  have key: "GEMINI_API_KEY ?e = None" by (simp add: env_const_def)
  have run: "fst (get_news ?e TECHNOLOGY w_init) =
     Inr \<lparr>status = 200,
          body = jsonify_news [\<lparr>article_id = 0, title = Some (ascii ''No Title''),
                   link = Some (ascii ''#''), description = Some (ascii ''No Title''),
                   tags = []\<rparr>]\<rparr>"
    by (simp add: get_news_registered [OF registry_technology] get_news_try_def env_const_def
        http_ok_def raise_for_status_def items_of_feed process_item_def chat_def truthy_def
        item_title_def item_link_def item_description_def find_child_def Let_def)
  from no_credential_no_tags_no_call [OF key, of _ w_init TECHNOLOGY]
  have "gen_calls (snd (get_news ?e TECHNOLOGY w_init)) = gen_calls w_init" by blast
  then show ?thesis using key run by (simp add: w_init_def)
qed

text \<open>
  C4. For every item the loop body produces an article, and in it: the title is the
  literal "No Title" when the item has no title element, the link is the literal "#" when
  it has no link element, and the description equals the article's title when it has no
  description element.
\<close>

theorem missing_elements_fall_back:
  "\<exists>a w'. process_item e i item w = (Inr a, w') \<and>
     (find_child (ascii ''title'') item = None \<longrightarrow> title a = Some (ascii ''No Title'')) \<and>
     (find_child (ascii ''link'') item = None \<longrightarrow> link a = Some (ascii ''#'')) \<and>
     (find_child (ascii ''description'') item = None \<longrightarrow> description a = title a)"
proof -
  obtain tgs w' where "process_item e i item w =
     (Inr \<lparr>article_id = i, title = item_title item, link = item_link item,
           description = item_description (item_title item) item, tags = tgs\<rparr>, w')"
    using process_item_Inr by blast
  then show ?thesis
    by (auto simp: item_title_def item_link_def item_description_def)
qed

theorem missing_elements_fall_back_witness:
  "find_child (ascii ''title'') (Element (ascii ''item'') None []) = None \<and>
   find_child (ascii ''link'') (Element (ascii ''item'') None []) = None \<and>
   find_child (ascii ''description'') (Element (ascii ''item'') None []) = None \<and>
   (case fst (process_item (env_const None (Inr (http_ok [])) (Inr (feed_of [])) (Inr None)) 0
                (Element (ascii ''item'') None []) w_init) of
      Inl ex \<Rightarrow> False
    | Inr a \<Rightarrow> title a = Some (ascii ''No Title'') \<and> link a = Some (ascii ''#'') \<and>
               description a = title a)"
  using missing_elements_fall_back [of "env_const None (Inr (http_ok [])) (Inr (feed_of [])) (Inr None)" 0
      "Element (ascii ''item'') None []" w_init]
  by (auto simp: find_child_def)

text \<open>
  C5. The tags are the pieces of the raw response between commas, each trimmed of
  whitespace, the empty ones dropped, in their order: the comprehension of the code
  computes what the specification's wording computes. No tag is empty, contains a comma,
  or starts or ends with whitespace. The raw response of the example gives its three
  tags, and \<open>chat\<close> returns exactly the parsed tags of the text the service returned.
\<close>

theorem parse_tags_contract:
  "parse_tags raw = spec_parse_tags raw \<and>
   parse_tags RAW_TAGS =
     [[12486, 12463, 12494, 12525, 12472, 12540], ascii ''AI'', [26032, 35069, 21697]] \<and>
   (\<forall>t \<in> set (parse_tags raw).
      t \<noteq> [] \<and> COMMA \<notin> set t \<and> \<not> isspace (hd t) \<and> \<not> isspace (last t)) \<and>
   (\<forall>req. truthy (GEMINI_API_KEY e) \<and> build_request e rp = Inr req \<and>
      generate_content e (length (gen_calls w)) req = Inr (Some raw) \<longrightarrow>
      fst (chat e rp w) = Inr (parse_tags raw))"
proof (intro conjI ballI allI impI)
  show "parse_tags raw = spec_parse_tags raw" by (rule parse_tags_spec)
next
  show "parse_tags RAW_TAGS =
     [[12486, 12463, 12494, 12525, 12472, 12540], ascii ''AI'', [26032, 35069, 21697]]"
    by (rule parse_tags_example)
next
  fix t assume t: "t \<in> set (parse_tags raw)"
  from parse_tags_each [OF t]
  show "t \<noteq> []" and "COMMA \<notin> set t" and "\<not> isspace (hd t)" and "\<not> isspace (last t)"
    by simp_all
next
  fix req
  assume "truthy (GEMINI_API_KEY e) \<and> build_request e rp = Inr req \<and>
      generate_content e (length (gen_calls w)) req = Inr (Some raw)"
  then show "fst (chat e rp w) = Inr (parse_tags raw)"
    by (simp add: chat_def chat_try_def)
qed

theorem parse_tags_contract_witness:
  "ascii ''AI'' \<in> set (parse_tags RAW_TAGS) \<and>
   fst (chat (env_const (Some (ascii ''k'')) (Inr (http_ok [])) (Inr (feed_of []))
               (Inr (Some RAW_TAGS)))
          (generate_request_prompt system_prompt (ascii ''x'') (1 / 2) 1) w_init) =
     Inr [[12486, 12463, 12494, 12525, 12472, 12540], [65, 73], [26032, 35069, 21697]]"
proof -
  let ?e = "env_const (Some (ascii ''k'')) (Inr (http_ok [])) (Inr (feed_of []))
               (Inr (Some RAW_TAGS))"
  let ?rp = "generate_request_prompt system_prompt (ascii ''x'') (1 / 2) 1"
  let ?req = "\<lparr>api_key = ascii ''k'', model = ascii ''gemini-2.5-flash'',
                contents = ascii ''x'',
                gen_config = \<lparr>system_instruction = system_prompt, max_output_tokens = 1024,
                              cfg_temperature = 1 / 2, top_p = 1\<rparr>\<rparr>"
  note c = parse_tags_contract [where raw = RAW_TAGS and e = ?e and rp = ?rp and w = w_init]
  have hyp: "truthy (GEMINI_API_KEY ?e) \<and> build_request ?e ?rp = Inr ?req \<and>
      generate_content ?e (length (gen_calls w_init)) ?req = Inr (Some RAW_TAGS)"
    by (simp add: env_const_def truthy_def build_request_def generate_request_prompt_def
        str_opt_def)
  from c have tags: "parse_tags RAW_TAGS =
     [[12486, 12463, 12494, 12525, 12472, 12540], ascii ''AI'', [26032, 35069, 21697]]"
    by blast
  from c hyp have "fst (chat ?e ?rp w_init) = Inr (parse_tags RAW_TAGS)"
    by blast
  with tags show ?thesis by (simp add: ascii_def)
qed

text \<open>
  C6. A category that is not a key of the registry, compared as the exact string, gets
  status 400 with the body \<open>{"error": "Invalid category"}\<close>, and the world is unchanged:
  nothing is fetched or printed.
\<close>

theorem unknown_category_rejected:
  assumes "category \<notin> set (map fst RSS_FEEDS)"
  shows "get_news e category w =
     (Inr \<lparr>status = 400, body = JObj [(''error'', JStr (ascii ''Invalid category''))]\<rparr>, w)"
proof -
  from assms have "map_of RSS_FEEDS category = None"
    by (simp add: map_of_eq_None_iff)
  then show ?thesis
    by (simp add: get_news_unregistered jsonify_error_def)
qed

theorem unknown_category_rejected_witness:
  "ascii ''foo'' \<notin> set (map fst RSS_FEEDS) \<and>
   get_news (env_const None (Inr (http_ok [])) (Inr (feed_of [])) (Inr None)) (ascii ''foo'') w_init =
     (Inr \<lparr>status = 400, body = JObj [(''error'', JStr (ascii ''Invalid category''))]\<rparr>, w_init) \<and>
   TECHNOLOGY @ [32] \<notin> set (map fst RSS_FEEDS) \<and>
   get_news (env_const None (Inr (http_ok [])) (Inr (feed_of [])) (Inr None)) (TECHNOLOGY @ [32])
       w_init =
     (Inr \<lparr>status = 400, body = JObj [(''error'', JStr (ascii ''Invalid category''))]\<rparr>, w_init)"
proof -
  have a: "ascii ''foo'' \<notin> set (map fst RSS_FEEDS)"
    by (simp add: RSS_FEEDS_def ascii_def)
  have b: "TECHNOLOGY @ [32] \<notin> set (map fst RSS_FEEDS)"
    by (simp add: RSS_FEEDS_def TECHNOLOGY_def)
  from a b unknown_category_rejected [OF a] unknown_category_rejected [OF b]
  show ?thesis by simp
qed

text \<open>
  C7 (as amended). For a registered category: when the fetch raises an exception of the
  RequestException family (a timeout, a connection failure), or returns a status from 400
  to 599, the response is 500 with the body
  \<open>{"error": "Failed to fetch RSS feed: <detail>"}\<close>; when the fetch returns any other
  status and the parser raises ParseError, the response is 500 with the body
  \<open>{"error": "Failed to parse RSS feed: <detail>"}\<close>. In every case the feed URL is
  requested exactly once.
\<close>

theorem feed_failures_reported:
  assumes "map_of RSS_FEEDS category = Some feed_url"
  shows
    "(\<forall>ex. requests_get e (length (feed_gets w)) feed_url 15 = Inl ex \<and>
          is_RequestException ex \<longrightarrow>
        fst (get_news e category w) =
          Inr \<lparr>status = 500,
               body = JObj [(''error'', JStr (ascii ''Failed to fetch RSS feed: '' @ exn_str ex))]\<rparr>) \<and>
     (\<forall>resp. requests_get e (length (feed_gets w)) feed_url 15 = Inr resp \<and>
          400 \<le> status_code resp \<and> status_code resp < 600 \<longrightarrow>
        (\<exists>detail. fst (get_news e category w) =
          Inr \<lparr>status = 500,
               body = JObj [(''error'', JStr (ascii ''Failed to fetch RSS feed: '' @ detail))]\<rparr>)) \<and>
     (\<forall>resp ex. requests_get e (length (feed_gets w)) feed_url 15 = Inr resp \<and>
          \<not> (400 \<le> status_code resp \<and> status_code resp < 600) \<and>
          ET_fromstring e (resp_content resp) = Inl ex \<and> is_ParseError ex \<longrightarrow>
        fst (get_news e category w) =
          Inr \<lparr>status = 500,
               body = JObj [(''error'', JStr (ascii ''Failed to parse RSS feed: '' @ exn_str ex))]\<rparr>) \<and>
     feed_gets (snd (get_news e category w)) = feed_gets w @ [feed_url]"
proof (intro conjI allI impI)
  fix ex
  assume "requests_get e (length (feed_gets w)) feed_url 15 = Inl ex \<and> is_RequestException ex"
  then show "fst (get_news e category w) =
      Inr \<lparr>status = 500,
           body = JObj [(''error'', JStr (ascii ''Failed to fetch RSS feed: '' @ exn_str ex))]\<rparr>"
    using get_news_fetch_raises [OF assms, of e w ex] by (simp add: jsonify_error_def)
next
  fix resp
  assume h: "requests_get e (length (feed_gets w)) feed_url 15 = Inr resp \<and>
          400 \<le> status_code resp \<and> status_code resp < 600"
  then obtain m where "raise_for_status resp = Some (HTTPError m)"
    using raise_for_status_error by blast
  with h get_news_status_raises [OF assms, of e w resp m]
  show "\<exists>detail. fst (get_news e category w) =
      Inr \<lparr>status = 500,
           body = JObj [(''error'', JStr (ascii ''Failed to fetch RSS feed: '' @ detail))]\<rparr>"
    by (auto simp: jsonify_error_def)
next
  fix resp ex
  assume h: "requests_get e (length (feed_gets w)) feed_url 15 = Inr resp \<and>
          \<not> (400 \<le> status_code resp \<and> status_code resp < 600) \<and>
          ET_fromstring e (resp_content resp) = Inl ex \<and> is_ParseError ex"
  then have "raise_for_status resp = None" by (simp add: raise_for_status_None)
  with h get_news_parse_raises [OF assms, of e w resp ex]
  show "fst (get_news e category w) =
      Inr \<lparr>status = 500,
           body = JObj [(''error'', JStr (ascii ''Failed to parse RSS feed: '' @ exn_str ex))]\<rparr>"
    by (simp add: jsonify_error_def)
next
  show "feed_gets (snd (get_news e category w)) = feed_gets w @ [feed_url]"
    by (rule get_news_feed_gets [OF assms])
qed

theorem feed_failures_reported_witness:
  "fst (get_news (env_const None (Inl (Timeout (ascii ''timed out''))) (Inr (feed_of [])) (Inr None))
          TECHNOLOGY w_init) =
     Inr \<lparr>status = 500,
          body = JObj [(''error'', JStr (ascii ''Failed to fetch RSS feed: timed out''))]\<rparr> \<and>
   (case fst (get_news (env_const None (Inr http_not_found) (Inr (feed_of [])) (Inr None))
                TECHNOLOGY w_init) of
      Inl ex \<Rightarrow> False
    | Inr r \<Rightarrow> status r = 500) \<and>
   fst (get_news (env_const None (Inr (http_ok [60]))
                    (Inl (ParseError (ascii ''syntax error: line 1, column 0''))) (Inr None))
          TECHNOLOGY w_init) =
     Inr \<lparr>status = 500,
          body = JObj [(''error'',
                        JStr (ascii ''Failed to parse RSS feed: syntax error: line 1, column 0''))]\<rparr> \<and>
   feed_gets (snd (get_news (env_const None (Inl (Timeout (ascii ''timed out''))) (Inr (feed_of []))
                              (Inr None)) TECHNOLOGY w_init)) = [TECHNOLOGY_URL]"
proof -
  let ?e1 = "env_const None (Inl (Timeout (ascii ''timed out''))) (Inr (feed_of [])) (Inr None)"
  let ?e2 = "env_const None (Inr http_not_found) (Inr (feed_of [])) (Inr None)"
  let ?e3 = "env_const None (Inr (http_ok [60]))
               (Inl (ParseError (ascii ''syntax error: line 1, column 0''))) (Inr None)"
  note t1 = feed_failures_reported [OF registry_technology, of ?e1 w_init]
  note t2 = feed_failures_reported [OF registry_technology, of ?e2 w_init]
  note t3 = feed_failures_reported [OF registry_technology, of ?e3 w_init]
  have h1: "requests_get ?e1 (length (feed_gets w_init)) TECHNOLOGY_URL 15 =
              Inl (Timeout (ascii ''timed out'')) \<and> is_RequestException (Timeout (ascii ''timed out''))"
    by (simp add: env_const_def)
  have h2: "requests_get ?e2 (length (feed_gets w_init)) TECHNOLOGY_URL 15 = Inr http_not_found \<and>
              400 \<le> status_code http_not_found \<and> status_code http_not_found < 600"
    by (simp add: env_const_def http_not_found_def)
  have h3: "requests_get ?e3 (length (feed_gets w_init)) TECHNOLOGY_URL 15 = Inr (http_ok [60]) \<and>
              \<not> (400 \<le> status_code (http_ok [60]) \<and> status_code (http_ok [60]) < 600) \<and>
              ET_fromstring ?e3 (resp_content (http_ok [60])) =
                Inl (ParseError (ascii ''syntax error: line 1, column 0'')) \<and>
              is_ParseError (ParseError (ascii ''syntax error: line 1, column 0''))"
    by (simp add: env_const_def http_ok_def)
  from t1 h1 have r1: "fst (get_news ?e1 TECHNOLOGY w_init) =
     Inr \<lparr>status = 500,
          body = JObj [(''error'', JStr (ascii ''Failed to fetch RSS feed: '' @
                   exn_str (Timeout (ascii ''timed out''))))]\<rparr>"
    by blast
  from t2 h2 obtain detail where r2: "fst (get_news ?e2 TECHNOLOGY w_init) =
     Inr \<lparr>status = 500,
          body = JObj [(''error'', JStr (ascii ''Failed to fetch RSS feed: '' @ detail))]\<rparr>"
    by blast
  from t3 h3 have r3: "fst (get_news ?e3 TECHNOLOGY w_init) =
     Inr \<lparr>status = 500,
          body = JObj [(''error'', JStr (ascii ''Failed to parse RSS feed: '' @
                   exn_str (ParseError (ascii ''syntax error: line 1, column 0''))))]\<rparr>"
    by blast
  from t1 have r4: "feed_gets (snd (get_news ?e1 TECHNOLOGY w_init)) =
      feed_gets w_init @ [TECHNOLOGY_URL]"
    by blast
  from r1 r2 r3 r4 show ?thesis
    by (simp add: ascii_def w_init_def)
qed

theorem non_2xx_status_counterexample:
  "requests_get (env_const None (Inr http_not_modified)
       (Inl (ParseError (ascii ''no element found: line 1, column 0''))) (Inr None))
       0 TECHNOLOGY_URL 15 = Inr http_not_modified \<and>
   status_code http_not_modified = 304 \<and>
   fst (get_news (env_const None (Inr http_not_modified)
          (Inl (ParseError (ascii ''no element found: line 1, column 0''))) (Inr None))
        TECHNOLOGY w_init) =
     Inr \<lparr>status = 500,
          body = JObj [(''error'',
                  JStr (ascii ''Failed to parse RSS feed: no element found: line 1, column 0''))]\<rparr> \<and>
   take 26 (ascii ''Failed to parse RSS feed: no element found: line 1, column 0'') \<noteq>
     ascii ''Failed to fetch RSS feed: ''"
  by (simp add: get_news_registered [OF registry_technology] get_news_try_def env_const_def
      http_not_modified_def raise_for_status_def jsonify_error_def ascii_def)

text \<open>
  C8. Once the feed is fetched with a status that raises nothing and is parsed, the
  response is 200 with the list of articles as its body, whatever the number of articles,
  zero included; when there are fewer than 10 the only effect is a warning line, the last
  line printed.
\<close>

theorem short_feed_still_succeeds:
  assumes "map_of RSS_FEEDS category = Some feed_url"
    and "requests_get e (length (feed_gets w)) feed_url 15 = Inr resp"
    and "raise_for_status resp = None"
    and "ET_fromstring e (resp_content resp) = Inr rt"
  shows "\<exists>news_list w'.
     get_news e category w = (Inr \<lparr>status = 200, body = jsonify_news news_list\<rparr>, w') \<and>
     length news_list = min 15 (length (findall_descendants (ascii ''item'') rt)) \<and>
     (length news_list < 10 \<longrightarrow>
        last (printed w') = MSG_WARN_HEAD @ str_nat (length news_list) @ MSG_WARN_TAIL)"
proof -
  from get_news_ok [OF assms] obtain nl w1 w2 where
    loop: "news_loop e (enumerate 0 (findall_descendants (ascii ''item'') rt)) [] w1 = (Inr nl, w2)"
    and run: "get_news e category w =
      (Inr \<lparr>status = 200, body = jsonify_news nl\<rparr>, warn_if_short nl w2)"
    by blast
  from news_loop_shape [OF loop]
  have len: "length nl = min 15 (length (findall_descendants (ascii ''item'') rt))"
    by auto
  have "length nl < 10 \<longrightarrow>
     last (printed (warn_if_short nl w2)) = MSG_WARN_HEAD @ str_nat (length nl) @ MSG_WARN_TAIL"
    by (simp add: warn_if_short_def)
  with run len show ?thesis by blast
qed

theorem short_feed_still_succeeds_witness:
  "map_of RSS_FEEDS TECHNOLOGY = Some TECHNOLOGY_URL \<and>
   raise_for_status (http_ok []) = None \<and>
   fst (get_news (env_const None (Inr (http_ok [])) (Inr (feed_of [])) (Inr None))
          TECHNOLOGY w_init) = Inr \<lparr>status = 200, body = JArr []\<rparr> \<and>
   last (printed (snd (get_news (env_const None (Inr (http_ok [])) (Inr (feed_of [])) (Inr None))
          TECHNOLOGY w_init))) = MSG_WARN_HEAD @ [48] @ MSG_WARN_TAIL"
proof -
  let ?e = "env_const None (Inr (http_ok [])) (Inr (feed_of [])) (Inr None)"
  have a: "requests_get ?e (length (feed_gets w_init)) TECHNOLOGY_URL 15 = Inr (http_ok [])"
    by (simp add: env_const_def)
  have b: "raise_for_status (http_ok []) = None"
    by (simp add: raise_for_status_def http_ok_def)
  have c: "ET_fromstring ?e (resp_content (http_ok [])) = Inr (feed_of [])"
    by (simp add: env_const_def)
  have d: "findall_descendants (ascii ''item'') (feed_of []) = []"
    by (simp add: findall_descendants_def feed_of_def ascii_def)
  from short_feed_still_succeeds [OF registry_technology a b c] obtain nl w' where
    run: "get_news ?e TECHNOLOGY w_init = (Inr \<lparr>status = 200, body = jsonify_news nl\<rparr>, w')"
    and len: "length nl = min 15 (length (findall_descendants (ascii ''item'') (feed_of [])))"
    and warn: "length nl < 10 \<longrightarrow>
        last (printed w') = MSG_WARN_HEAD @ str_nat (length nl) @ MSG_WARN_TAIL"
    by blast
  from len d have "nl = []" by simp
  with run warn registry_technology b show ?thesis
    by (simp add: jsonify_news_def str_nat.simps)
qed

text \<open>
  C9. A title element that is present but has no text gives the article the title
  \<open>None\<close> (JSON null), not the fallback "No Title"; likewise a link or description element
  that is present without text gives \<open>None\<close>.
\<close>

theorem empty_element_gives_null:
  "\<exists>a w'. process_item e i item w = (Inr a, w') \<and>
     (\<forall>el. find_child (ascii ''title'') item = Some el \<and> el_text el = None \<longrightarrow>
        title a = None \<and> title a \<noteq> Some (ascii ''No Title'') \<and>
        jsonify_article a =
          JObj [(''id'', JInt (int i)), (''title'', JNull), (''link'', json_str_opt (link a)),
                (''description'', json_str_opt (description a)),
                (''tags'', JArr (map JStr (tags a)))]) \<and>
     (\<forall>el. find_child (ascii ''link'') item = Some el \<and> el_text el = None \<longrightarrow>
        link a = None \<and> json_str_opt (link a) = JNull) \<and>
     (\<forall>el. find_child (ascii ''description'') item = Some el \<and> el_text el = None \<longrightarrow>
        description a = None \<and> json_str_opt (description a) = JNull)"
proof -
  obtain tgs w' where "process_item e i item w =
     (Inr \<lparr>article_id = i, title = item_title item, link = item_link item,
           description = item_description (item_title item) item, tags = tgs\<rparr>, w')"
    using process_item_Inr by blast
  then show ?thesis
    by (auto simp: item_title_def item_link_def item_description_def jsonify_article_def
        json_str_opt_def)
qed

theorem empty_element_gives_null_witness:
  "find_child (ascii ''title'') (Element (ascii ''item'') None
      [leaf ''title'' None, leaf ''link'' None, leaf ''description'' None]) = Some (leaf ''title'' None) \<and>
   el_text (leaf ''title'' None) = None \<and>
   (case fst (process_item (env_const None (Inr (http_ok [])) (Inr (feed_of [])) (Inr None)) 0
                (Element (ascii ''item'') None
                   [leaf ''title'' None, leaf ''link'' None, leaf ''description'' None]) w_init) of
      Inl ex \<Rightarrow> False
    | Inr a \<Rightarrow> title a = None \<and> link a = None \<and> description a = None)"
  using empty_element_gives_null [of "env_const None (Inr (http_ok [])) (Inr (feed_of [])) (Inr None)" 0
      "Element (ascii ''item'') None
         [leaf ''title'' None, leaf ''link'' None, leaf ''description'' None]" w_init]
  by (auto simp: find_child_def leaf_def ascii_def)

text \<open>
  C10. For an item with neither a title nor a description element, the description of the
  article is the substituted title "No Title": the description falls back to the title
  already resolved.
\<close>

theorem description_falls_back_to_resolved_title:
  "\<exists>a w'. process_item e i item w = (Inr a, w') \<and>
     (find_child (ascii ''title'') item = None \<and> find_child (ascii ''description'') item = None \<longrightarrow>
        description a = Some (ascii ''No Title''))"
proof -
  obtain tgs w' where "process_item e i item w =
     (Inr \<lparr>article_id = i, title = item_title item, link = item_link item,
           description = item_description (item_title item) item, tags = tgs\<rparr>, w')"
    using process_item_Inr by blast
  then show ?thesis
    by (auto simp: item_title_def item_description_def)
qed

theorem description_falls_back_to_resolved_title_witness:
  "find_child (ascii ''title'') (Element (ascii ''item'') None
      [leaf ''link'' (Some (ascii ''http://a''))]) = None \<and>
   find_child (ascii ''description'') (Element (ascii ''item'') None
      [leaf ''link'' (Some (ascii ''http://a''))]) = None \<and>
   (case fst (process_item (env_const None (Inr (http_ok [])) (Inr (feed_of [])) (Inr None)) 3
                (Element (ascii ''item'') None [leaf ''link'' (Some (ascii ''http://a''))])
                w_init) of
      Inl ex \<Rightarrow> False
    | Inr a \<Rightarrow> description a = Some (ascii ''No Title''))"
  using description_falls_back_to_resolved_title
      [of "env_const None (Inr (http_ok [])) (Inr (feed_of [])) (Inr None)" 3
          "Element (ascii ''item'') None [leaf ''link'' (Some (ascii ''http://a''))]" w_init]
  by (auto simp: find_child_def leaf_def ascii_def)

end
